theory Spec2Isabelle
  imports Main
begin

section \<open>The supervisor script \<open>hot_run.py\<close>\<close>

text \<open>
  The script installs a SIGINT handler, runs \<open>cargo build\<close> to completion, starts two
  long-running children and then polls them in a busy loop until one has exited.
  Everything the script does is an interaction with the operating system, so the model
  makes the operating system an explicit parameter (a \<open>world\<close>) and threads an explicit
  interpreter state through every statement.

  Time is the number of library calls the script has made so far (\<open>clock\<close>). The world says,
  for every instant, whether an interrupt is delivered at that instant and what return
  code each child would report if it were polled at that instant.
\<close>

subsection \<open>Data\<close>

type_synonym cmd = "string list"

text \<open>The exceptions that can reach the top level of the script.\<close>

datatype exn = SystemExit int | KeyboardInterrupt | OSError

text \<open>The disposition of SIGINT: Python's default handler, or \<open>signal_handler\<close> (line 5).\<close>

datatype handler = Default_int_handler | Signal_handler

text \<open>A \<open>subprocess.Popen\<close> object: the command line it was created with and its process id.\<close>

record popen =
  args :: cmd
  pid :: nat

text \<open>What the outside can observe of a run: the library calls, in the order they are made.\<close>

datatype action =
    Install_handler
  | Run_to_completion cmd
  | Launch cmd
  | Polled popen
  | Terminate_request popen
  | Exit int

record world =
  sigint :: "nat \<Rightarrow> bool"
  spawn :: "cmd \<Rightarrow> nat option"
  build_returncode :: int
  returncode :: "nat \<Rightarrow> nat \<Rightarrow> int option"

text \<open>
  \<^item> \<open>sigint w t\<close>: an interrupt is delivered when the clock shows \<open>t\<close>, that is before the
    \<open>t\<close>-th library call is made;
  \<^item> \<open>spawn w c\<close>: the process id the system gives to command \<open>c\<close>, or \<open>None\<close> when the
    command cannot be started (the library raises \<open>OSError\<close>, for instance
    \<open>FileNotFoundError\<close>);
  \<^item> \<open>build_returncode w\<close>: the exit code of the one-shot build;
  \<^item> \<open>returncode w t p\<close>: what \<open>poll()\<close> of the child with process id \<open>p\<close> reports at time
    \<open>t\<close>: \<open>None\<close> while it runs, \<open>Some c\<close> once it has exited with code \<open>c\<close>.
\<close>

record state =
  clock :: nat
  sigint_handler :: handler
  processes :: "popen list"
  trace :: "action list"

text \<open>The module-level name \<open>processes\<close> is unbound until line 12; the model starts it empty.\<close>

definition init_state :: state where
  "init_state = \<lparr>clock = 0, sigint_handler = Default_int_handler, processes = [], trace = []\<rparr>"

definition build_cmd :: cmd where
  "build_cmd = [''cargo'', ''build'']"

definition watch_cmd :: cmd where
  "watch_cmd = [''cargo'', ''watch'', ''-w'', ''game'', ''-x'', ''build -p game'']"

definition run_cmd :: cmd where
  "run_cmd = [''cargo'', ''run'']"

subsection \<open>Statements\<close>

text \<open>
  A statement takes the state and returns either the exception it raised (\<open>Inl\<close>) or its
  value (\<open>Inr\<close>), together with the state it leaves behind.
\<close>

type_synonym 'a stmt = "state \<Rightarrow> (exn + 'a) \<times> state"

definition then_do :: "'a stmt \<Rightarrow> ('a \<Rightarrow> 'b stmt) \<Rightarrow> 'b stmt" where
  "then_do m f s = (case m s of (Inl e, s') \<Rightarrow> (Inl e, s') | (Inr x, s') \<Rightarrow> f x s')"

text \<open>\<open>sys.exit(code)\<close> raises \<open>SystemExit(code)\<close>; nothing in the script catches it.\<close>

definition sys_exit :: "int \<Rightarrow> state \<Rightarrow> exn \<times> state" where
  "sys_exit code s = (SystemExit code, s\<lparr>trace := trace s @ [Exit code]\<rparr>)"

text \<open>Lines 5-6: \<open>def signal_handler(sig, frame): sys.exit(0)\<close>.\<close>

definition signal_handler :: "state \<Rightarrow> exn \<times> state" where
  "signal_handler s = sys_exit 0 s"

text \<open>
  Delivery of SIGINT: the interpreter runs the installed handler in the main thread. The
  default handler raises \<open>KeyboardInterrupt\<close>.
\<close>

definition deliver_sigint :: "state \<Rightarrow> exn \<times> state" where
  "deliver_sigint s =
     (case sigint_handler s of
        Default_int_handler \<Rightarrow> (KeyboardInterrupt, s)
      | Signal_handler \<Rightarrow> signal_handler s)"

text \<open>
  Every library call is a point where a pending interrupt is served first; the call itself
  is made only when none is pending.
\<close>

definition checked :: "world \<Rightarrow> 'a stmt \<Rightarrow> 'a stmt" where
  "checked w m s =
     (if sigint w (clock s) then (case deliver_sigint s of (e, s') \<Rightarrow> (Inl e, s'))
      else m s)"

definition tick :: "action \<Rightarrow> state \<Rightarrow> state" where
  "tick a s = s\<lparr>clock := Suc (clock s), trace := trace s @ [a]\<rparr>"

text \<open>Line 8: \<open>signal.signal(signal.SIGINT, signal_handler)\<close>.\<close>

definition signal_signal :: "world \<Rightarrow> unit stmt" where
  "signal_signal w =
     checked w (\<lambda>s. (Inr (), (tick Install_handler s)\<lparr>sigint_handler := Signal_handler\<rparr>))"

text \<open>
  \<open>subprocess.run(c)\<close> starts the command, waits for it and returns a completed process
  carrying its return code. It raises when the command cannot be started.
\<close>

definition subprocess_run :: "world \<Rightarrow> cmd \<Rightarrow> int stmt" where
  "subprocess_run w c =
     checked w (\<lambda>s. case spawn w c of
                       None \<Rightarrow> (Inl OSError, tick (Run_to_completion c) s)
                     | Some p \<Rightarrow> (Inr (build_returncode w), tick (Run_to_completion c) s))"

text \<open>\<open>subprocess.Popen(c)\<close> starts the command and returns its handle without waiting.\<close>

definition Popen :: "world \<Rightarrow> cmd \<Rightarrow> popen stmt" where
  "Popen w c =
     checked w (\<lambda>s. case spawn w c of
                       None \<Rightarrow> (Inl OSError, tick (Launch c) s)
                     | Some p \<Rightarrow> (Inr \<lparr>args = c, pid = p\<rparr>, tick (Launch c) s))"

text \<open>\<open>p.poll()\<close>: the non-blocking check of the child's return code.\<close>

definition poll :: "world \<Rightarrow> popen \<Rightarrow> int option stmt" where
  "poll w p = checked w (\<lambda>s. (Inr (returncode w (clock s) (pid p)), tick (Polled p) s))"

text \<open>\<open>p.terminate()\<close>: the request is sent and the call returns at once.\<close>

definition terminate :: "world \<Rightarrow> popen \<Rightarrow> unit stmt" where
  "terminate w p = checked w (\<lambda>s. (Inr (), tick (Terminate_request p) s))"

text \<open>Line 23, \<open>sys.exit(code)\<close>, as a statement of the loop body.\<close>

definition exit_with :: "world \<Rightarrow> int \<Rightarrow> unit stmt" where
  "exit_with w code = checked w (\<lambda>s. case sys_exit code s of (e, s') \<Rightarrow> (Inl e, s'))"

text \<open>Lines 21-22: \<open>for p in processes: p.terminate()\<close>.\<close>

fun terminate_all :: "world \<Rightarrow> popen list \<Rightarrow> unit stmt" where
  "terminate_all w [] s = (Inr (), s)"
| "terminate_all w (p # ps) s =
     (case terminate w p s of
        (Inl e, s') \<Rightarrow> (Inl e, s')
      | (Inr u, s') \<Rightarrow> terminate_all w ps s')"

text \<open>
  Lines 18-23: one pass of \<open>for p in processes\<close>. The first handle whose poll is not
  \<open>None\<close> ends the pass: every handle of the list is sent a termination request and the
  script exits with the code that was read.
\<close>

fun poll_all :: "world \<Rightarrow> popen list \<Rightarrow> unit stmt" where
  "poll_all w [] s = (Inr (), s)"
| "poll_all w (p # ps) s =
     (case poll w p s of
        (Inl e, s') \<Rightarrow> (Inl e, s')
      | (Inr None, s') \<Rightarrow> poll_all w ps s'
      | (Inr (Some code), s') \<Rightarrow>
          (case terminate_all w (processes s') s' of
             (Inl e, s'') \<Rightarrow> (Inl e, s'')
           | (Inr u, s'') \<Rightarrow> exit_with w code s''))"

text \<open>
  Line 17: \<open>while True\<close>. The loop has no exit of its own, so a run is cut after a given
  number of passes: \<open>None\<close> says that the loop is still running after \<open>n\<close> passes,
  \<open>Some e\<close> that the exception \<open>e\<close> ended it.
\<close>

fun while_true :: "nat \<Rightarrow> world \<Rightarrow> state \<Rightarrow> exn option \<times> state" where
  "while_true 0 w s = (None, s)"
| "while_true (Suc n) w s =
     (case poll_all w (processes s) s of
        (Inl e, s') \<Rightarrow> (Some e, s')
      | (Inr u, s') \<Rightarrow> while_true n w s')"

text \<open>Lines 8-15, in the order the script has them.\<close>

definition startup :: "world \<Rightarrow> unit stmt" where
  "startup w =
     then_do (signal_signal w) (\<lambda>u.
     then_do (subprocess_run w build_cmd) (\<lambda>completed.
     then_do (Popen w watch_cmd) (\<lambda>p1.
     then_do (Popen w run_cmd) (\<lambda>p2.
     (\<lambda>s. (Inr (), s\<lparr>processes := [p1, p2]\<rparr>))))))"

definition main :: "nat \<Rightarrow> world \<Rightarrow> exn option \<times> state" where
  "main n w =
     (case startup w init_state of
        (Inl e, s) \<Rightarrow> (Some e, s)
      | (Inr u, s) \<Rightarrow> while_true n w s)"

subsection \<open>Vocabulary for the properties\<close>

text \<open>
  The handles the script holds when both children could be started, and the four library
  calls that precede the loop.
\<close>

definition watch_handle :: "nat \<Rightarrow> popen" where
  "watch_handle a = \<lparr>args = watch_cmd, pid = a\<rparr>"

definition run_handle :: "nat \<Rightarrow> popen" where
  "run_handle b = \<lparr>args = run_cmd, pid = b\<rparr>"

definition startup_trace :: "action list" where
  "startup_trace = [Install_handler, Run_to_completion build_cmd, Launch watch_cmd, Launch run_cmd]"

text \<open>
  \<open>all_start w a b\<close>: in world \<open>w\<close> the build command can be started, the watcher gets
  process id \<open>a\<close> and the runner process id \<open>b\<close>.
\<close>

definition all_start :: "world \<Rightarrow> nat \<Rightarrow> nat \<Rightarrow> bool" where
  "all_start w a b =
     (spawn w build_cmd \<noteq> None \<and> spawn w watch_cmd = Some a \<and> spawn w run_cmd = Some b)"

text \<open>The state in which the loop is entered: four calls made, handler installed.\<close>

definition loop_entry :: "popen \<Rightarrow> popen \<Rightarrow> state" where
  "loop_entry p q = \<lparr>clock = 4, sigint_handler = Signal_handler, processes = [p, q], trace = startup_trace\<rparr>"

text \<open>
  The loop polls the watcher and the runner in turn. Its poll number \<open>k\<close> (counted from
  \<open>0\<close>) is made when the clock shows \<open>4 + k\<close> and addresses \<open>polled x y k\<close>, where \<open>x\<close>
  stands for the watcher and \<open>y\<close> for the runner; \<open>other x y k\<close> is the child that this
  poll does not address.
\<close>

definition polled :: "'a \<Rightarrow> 'a \<Rightarrow> nat \<Rightarrow> 'a" where
  "polled x y k = (if even k then x else y)"

definition other :: "'a \<Rightarrow> 'a \<Rightarrow> nat \<Rightarrow> 'a" where
  "other x y k = (if even k then y else x)"

text \<open>\<open>silent w a b k\<close>: the first \<open>k\<close> polls of the loop all report \<open>None\<close>.\<close>

definition silent :: "world \<Rightarrow> nat \<Rightarrow> nat \<Rightarrow> nat \<Rightarrow> bool" where
  "silent w a b k = (\<forall>j<k. returncode w (4 + j) (polled a b j) = None)"

text \<open>The trace the first \<open>m\<close> polls leave, and the state after \<open>i\<close> passes without an exit.\<close>

definition poll_trace :: "popen \<Rightarrow> popen \<Rightarrow> nat \<Rightarrow> action list" where
  "poll_trace p q m = map (\<lambda>j. Polled (polled p q j)) [0..<m]"

definition after_passes :: "nat \<Rightarrow> nat \<Rightarrow> nat \<Rightarrow> state" where
  "after_passes a b i =
     \<lparr>clock = 4 + 2 * i, sigint_handler = Signal_handler,
      processes = [watch_handle a, run_handle b],
      trace = startup_trace @ concat (replicate i [Polled (watch_handle a), Polled (run_handle b)])\<rparr>"

text \<open>
  \<open>precedes x y tr\<close>: \<open>x\<close> occurs in \<open>tr\<close> and \<open>y\<close> occurs after its first occurrence.
  \<open>requests tr\<close>: the handles that were sent a termination request, in order.
\<close>

definition precedes :: "'a \<Rightarrow> 'a \<Rightarrow> 'a list \<Rightarrow> bool" where
  "precedes x y tr = (y \<in> set (dropWhile (\<lambda>z. z \<noteq> x) tr))"

fun requests :: "action list \<Rightarrow> popen list" where
  "requests [] = []"
| "requests (Terminate_request p # tr) = p # requests tr"
| "requests (x # tr) = requests tr"

text \<open>
  The order of the startup actions as the specification lists it: the build, then the two
  launches, then the installation of the interrupt handler, then the first poll.
\<close>

definition spec_startup_order :: "popen \<Rightarrow> action list \<Rightarrow> bool" where
  "spec_startup_order p tr =
     (precedes (Run_to_completion build_cmd) (Launch watch_cmd) tr \<and>
      precedes (Run_to_completion build_cmd) (Launch run_cmd) tr \<and>
      precedes (Launch watch_cmd) Install_handler tr \<and>
      precedes (Launch run_cmd) Install_handler tr \<and>
      precedes Install_handler (Polled p) tr)"

subsection \<open>Example worlds\<close>

text \<open>
  In \<open>calm_world\<close> every command starts, nobody interrupts and no child ever exits. The
  other worlds change one thing each: the runner has exited with code 3 from time 7 on;
  both children have exited before the loop starts; an interrupt arrives at time 6; the
  watcher cannot be started. In \<open>watch_exited_world\<close> the watcher has exited with code 1
  and the runner keeps running; \<open>interrupted_at u w\<close> is \<open>w\<close> with one interrupt, at
  time \<open>u\<close>.
\<close>

definition demo_spawn :: "cmd \<Rightarrow> nat option" where
  "demo_spawn c =
     (if c = build_cmd then Some 100
      else if c = watch_cmd then Some 101
      else if c = run_cmd then Some 102
      else None)"

definition calm_world :: world where
  "calm_world =
     \<lparr>sigint = (\<lambda>t. False), spawn = demo_spawn, build_returncode = 0,
      returncode = (\<lambda>t p. None)\<rparr>"

definition run_exits_world :: world where
  "run_exits_world =
     calm_world\<lparr>returncode := (\<lambda>t p. if p = 102 \<and> 7 \<le> t then Some 3 else None)\<rparr>"

definition both_exited_world :: world where
  "both_exited_world =
     calm_world\<lparr>returncode := (\<lambda>t p. if p = 101 then Some 1 else if p = 102 then Some 2 else None)\<rparr>"

definition interrupted_world :: world where
  "interrupted_world = calm_world\<lparr>sigint := (\<lambda>t. t = 6)\<rparr>"

definition watch_exited_world :: world where
  "watch_exited_world =
     calm_world\<lparr>returncode := (\<lambda>t p. if p = 101 then Some 1 else None)\<rparr>"

definition interrupted_at :: "nat \<Rightarrow> world \<Rightarrow> world" where
  "interrupted_at u w = w\<lparr>sigint := (\<lambda>t. t = u)\<rparr>"

definition no_watch_world :: world where
  "no_watch_world = calm_world\<lparr>spawn := (\<lambda>c. if c = watch_cmd then None else demo_spawn c)\<rparr>"

section \<open>Lemmas about runs\<close>

text \<open>
  The lemmas follow a run from statement to statement: the startup, a pass in which no
  child is seen to have exited, a pass that sees an exit, and a pass cut by an interrupt.
\<close>

lemma startup_completes:
  assumes quiet: "\<forall>t<4. \<not> sigint w t"
    and "spawn w build_cmd = Some x" "spawn w watch_cmd = Some a" "spawn w run_cmd = Some b"
  shows "startup w init_state = (Inr (), loop_entry (watch_handle a) (run_handle b))"
proof -
  from quiet have "\<not> sigint w 0" "\<not> sigint w (Suc 0)" "\<not> sigint w (Suc (Suc 0))"
    "\<not> sigint w (Suc (Suc (Suc 0)))"
    by simp_all
  with assms(2-) show ?thesis
    by (simp add: startup_def then_do_def signal_signal_def subprocess_run_def Popen_def
        checked_def tick_def init_state_def loop_entry_def startup_trace_def watch_handle_def
        run_handle_def)
qed

lemma quiet_pass:
  assumes "\<not> sigint w (clock s)" "\<not> sigint w (Suc (clock s))"
    and "returncode w (clock s) (pid p) = None" "returncode w (Suc (clock s)) (pid q) = None"
  shows "poll_all w [p, q] s =
    (Inr (), s\<lparr>clock := clock s + 2, trace := trace s @ [Polled p, Polled q]\<rparr>)"
  using assms by (simp add: poll_def checked_def tick_def)

lemma quiet_loop:
  assumes "processes s = [p, q]"
    and "\<forall>j<i. \<not> sigint w (clock s + 2 * j) \<and> \<not> sigint w (clock s + 2 * j + 1)
          \<and> returncode w (clock s + 2 * j) (pid p) = None
          \<and> returncode w (clock s + 2 * j + 1) (pid q) = None"
  shows "while_true (i + m) w s =
    while_true m w (s\<lparr>clock := clock s + 2 * i,
                      trace := trace s @ concat (replicate i [Polled p, Polled q])\<rparr>)"
  using assms
proof (induction i arbitrary: s)
  case 0
  then show ?case by simp
next
  case (Suc i)
  let ?s' = "s\<lparr>clock := clock s + 2, trace := trace s @ [Polled p, Polled q]\<rparr>"
  from Suc.prems(2) have first: "\<not> sigint w (clock s)" "\<not> sigint w (Suc (clock s))"
    "returncode w (clock s) (pid p) = None" "returncode w (Suc (clock s)) (pid q) = None"
    by force+
  have pass: "poll_all w (processes s) s = (Inr (), ?s')"
    using quiet_pass [OF first] Suc.prems(1) by simp
  have rest: "\<forall>j<i. \<not> sigint w (clock ?s' + 2 * j) \<and> \<not> sigint w (clock ?s' + 2 * j + 1)
          \<and> returncode w (clock ?s' + 2 * j) (pid p) = None
          \<and> returncode w (clock ?s' + 2 * j + 1) (pid q) = None"
  proof (intro allI impI)
    fix j assume "j < i"
    then have "Suc j < Suc i" by simp
    with Suc.prems(2) show "\<not> sigint w (clock ?s' + 2 * j) \<and> \<not> sigint w (clock ?s' + 2 * j + 1)
          \<and> returncode w (clock ?s' + 2 * j) (pid p) = None
          \<and> returncode w (clock ?s' + 2 * j + 1) (pid q) = None"
      by (auto simp: add.commute add.left_commute dest!: spec [where x = "Suc j"])
  qed
  have "processes ?s' = [p, q]" using Suc.prems(1) by simp
  from Suc.IH [OF this rest] pass show ?case by (simp add: add.commute add.left_commute)
qed

lemma exit_on_first:
  assumes "processes s = [p, q]"
    and quiet: "\<forall>t. clock s \<le> t \<and> t \<le> clock s + 3 \<longrightarrow> \<not> sigint w t"
    and "returncode w (clock s) (pid p) = Some c"
  shows "poll_all w [p, q] s =
    (Inl (SystemExit c), s\<lparr>clock := clock s + 3,
       trace := trace s @ [Polled p, Terminate_request p, Terminate_request q, Exit c]\<rparr>)"
proof -
  from quiet have "\<not> sigint w (clock s)" "\<not> sigint w (Suc (clock s))"
    "\<not> sigint w (Suc (Suc (clock s)))" "\<not> sigint w (Suc (Suc (Suc (clock s))))"
    by simp_all
  with assms(1,3) show ?thesis
    by (simp add: poll_def terminate_def exit_with_def sys_exit_def checked_def tick_def
        numeral_3_eq_3)
qed

lemma exit_on_second:
  assumes "processes s = [p, q]"
    and quiet: "\<forall>t. clock s \<le> t \<and> t \<le> clock s + 4 \<longrightarrow> \<not> sigint w t"
    and "returncode w (clock s) (pid p) = None" "returncode w (Suc (clock s)) (pid q) = Some c"
  shows "poll_all w [p, q] s =
    (Inl (SystemExit c), s\<lparr>clock := clock s + 4,
       trace := trace s @ [Polled p, Polled q, Terminate_request p, Terminate_request q, Exit c]\<rparr>)"
proof -
  from quiet have "\<not> sigint w (clock s)" "\<not> sigint w (Suc (clock s))"
    "\<not> sigint w (Suc (Suc (clock s)))" "\<not> sigint w (Suc (Suc (Suc (clock s))))"
    "\<not> sigint w (Suc (Suc (Suc (Suc (clock s)))))"
    by simp_all
  with assms(1,3,4) show ?thesis
    by (simp add: poll_def terminate_def exit_with_def sys_exit_def checked_def tick_def
        eval_nat_numeral)
qed

lemma main_silent:
  assumes quiet: "\<forall>t<4 + 2 * i. \<not> sigint w t"
    and start: "all_start w a b"
    and sil: "silent w a b (2 * i)"
  shows "main (i + m) w = while_true m w (after_passes a b i)"
proof -
  let ?p = "watch_handle a" and ?q = "run_handle b"
  let ?s = "loop_entry ?p ?q"
  from start obtain x where sp: "spawn w build_cmd = Some x" "spawn w watch_cmd = Some a"
    "spawn w run_cmd = Some b"
    by (auto simp: all_start_def)
  from quiet have "\<forall>t<4. \<not> sigint w t" by simp
  from startup_completes [OF this sp] have st: "startup w init_state = (Inr (), ?s)" .
  have pr: "processes ?s = [?p, ?q]" by (simp add: loop_entry_def)
  have pass: "\<forall>j<i. \<not> sigint w (clock ?s + 2 * j) \<and> \<not> sigint w (clock ?s + 2 * j + 1)
          \<and> returncode w (clock ?s + 2 * j) (pid ?p) = None
          \<and> returncode w (clock ?s + 2 * j + 1) (pid ?q) = None"
  proof (intro allI impI)
    fix j assume j: "j < i"
    then have "2 * j < 2 * i" "2 * j + 1 < 2 * i" by simp_all
    with sil have "returncode w (4 + 2 * j) (polled a b (2 * j)) = None"
      "returncode w (4 + (2 * j + 1)) (polled a b (2 * j + 1)) = None"
      unfolding silent_def by blast+
    moreover from j quiet have "\<not> sigint w (4 + 2 * j)" "\<not> sigint w (4 + 2 * j + 1)"
      by simp_all
    ultimately show "\<not> sigint w (clock ?s + 2 * j) \<and> \<not> sigint w (clock ?s + 2 * j + 1)
          \<and> returncode w (clock ?s + 2 * j) (pid ?p) = None
          \<and> returncode w (clock ?s + 2 * j + 1) (pid ?q) = None"
      by (simp add: loop_entry_def polled_def watch_handle_def run_handle_def add.assoc)
  qed
  have "?s\<lparr>clock := clock ?s + 2 * i,
           trace := trace ?s @ concat (replicate i [Polled ?p, Polled ?q])\<rparr> = after_passes a b i"
    by (simp add: loop_entry_def after_passes_def)
  with quiet_loop [OF pr pass, of m] st show ?thesis
    by (simp add: main_def)
qed

lemma concat_replicate_commute: "concat (replicate i xs) @ xs = xs @ concat (replicate i xs)"
  by (induction i) simp_all

lemma poll_trace_even:
  "poll_trace p q (2 * i) = concat (replicate i [Polled p, Polled q])"
proof (induction i)
  case 0
  show ?case by (simp add: poll_trace_def)
next
  case (Suc i)
  have "poll_trace p q (2 * Suc i) = poll_trace p q (2 * i) @ [Polled p, Polled q]"
    by (simp add: poll_trace_def polled_def)
  also have "\<dots> = concat (replicate i [Polled p, Polled q]) @ [Polled p, Polled q]"
    by (simp only: Suc.IH)
  also have "\<dots> = concat (replicate (Suc i) [Polled p, Polled q])"
    using concat_replicate_commute [of i "[Polled p, Polled q]"] by simp
  finally show ?case .
qed

lemma poll_trace_Suc: "poll_trace p q (Suc m) = poll_trace p q m @ [Polled (polled p q m)]"
  by (simp add: poll_trace_def)

lemma observed_exit_undisturbed:
  assumes quiet: "\<forall>t\<le>4 + k + 3. \<not> sigint w t"
    and start: "all_start w a b"
    and sil: "silent w a b k"
    and seen: "returncode w (4 + k) (polled a b k) = Some c"
    and fuel: "k div 2 < n"
  shows "main n w =
    (Some (SystemExit c),
     \<lparr>clock = 4 + k + 3, sigint_handler = Signal_handler,
      processes = [watch_handle a, run_handle b],
      trace = startup_trace @ poll_trace (watch_handle a) (run_handle b) (Suc k)
        @ [Terminate_request (watch_handle a), Terminate_request (run_handle b), Exit c]\<rparr>)"
proof -
  let ?p = "watch_handle a" and ?q = "run_handle b"
  define i where "i = k div 2"
  from fuel obtain m where n: "n = i + Suc m"
    unfolding i_def by (metis less_iff_Suc_add add_Suc_right)
  let ?s = "after_passes a b i"
  have ik: "2 * i \<le> k" unfolding i_def by simp
  from sil ik have "silent w a b (2 * i)" unfolding silent_def by simp
  moreover from quiet ik have "\<forall>t<4 + 2 * i. \<not> sigint w t" by simp
  ultimately have run: "main n w = while_true (Suc m) w ?s"
    unfolding n using start by (intro main_silent) simp_all
  have pr: "processes ?s = [?p, ?q]" by (simp add: after_passes_def)
  have ck: "clock ?s = 4 + 2 * i" by (simp add: after_passes_def)
  show ?thesis
  proof (cases "even k")
    case True
    then have k: "k = 2 * i" unfolding i_def by simp
    from seen True have "returncode w (clock ?s) (pid ?p) = Some c"
      by (simp add: ck k polled_def watch_handle_def)
    moreover from quiet
    have "\<forall>t. clock ?s \<le> t \<and> t \<le> clock ?s + 3 \<longrightarrow> \<not> sigint w t"
      by (simp add: ck k)
    ultimately
    have "poll_all w [?p, ?q] ?s = (Inl (SystemExit c), ?s\<lparr>clock := clock ?s + 3,
       trace := trace ?s @ [Polled ?p, Terminate_request ?p, Terminate_request ?q, Exit c]\<rparr>)"
      using pr by (intro exit_on_first)
    then have "while_true (Suc m) w ?s = (Some (SystemExit c), ?s\<lparr>clock := clock ?s + 3,
       trace := trace ?s @ [Polled ?p, Terminate_request ?p, Terminate_request ?q, Exit c]\<rparr>)"
      by (simp add: pr del: poll_all.simps)
    then show ?thesis
      unfolding run by (simp add: k poll_trace_Suc poll_trace_even polled_def after_passes_def)
  next
    case False
    then have k: "k = Suc (2 * i)" unfolding i_def by (simp add: odd_two_times_div_two_succ)
    from sil have "returncode w (4 + 2 * i) (polled a b (2 * i)) = None"
      unfolding silent_def k by simp
    then have none: "returncode w (clock ?s) (pid ?p) = None"
      by (simp add: ck polled_def watch_handle_def)
    from seen False have some: "returncode w (Suc (clock ?s)) (pid ?q) = Some c"
      by (simp add: ck k polled_def run_handle_def)
    from quiet
    have "\<forall>t. clock ?s \<le> t \<and> t \<le> clock ?s + 4 \<longrightarrow> \<not> sigint w t"
      by (simp add: ck k)
    with pr none some
    have "poll_all w [?p, ?q] ?s = (Inl (SystemExit c), ?s\<lparr>clock := clock ?s + 4,
       trace := trace ?s @ [Polled ?p, Polled ?q, Terminate_request ?p, Terminate_request ?q, Exit c]\<rparr>)"
      by (intro exit_on_second)
    then have "while_true (Suc m) w ?s = (Some (SystemExit c), ?s\<lparr>clock := clock ?s + 4,
       trace := trace ?s @ [Polled ?p, Polled ?q, Terminate_request ?p, Terminate_request ?q, Exit c]\<rparr>)"
      by (simp add: pr del: poll_all.simps)
    then show ?thesis
      unfolding run by (simp add: k poll_trace_Suc poll_trace_even polled_def after_passes_def)
  qed
qed

lemma observed_exit:
  assumes quiet: "\<forall>t. \<not> sigint w t"
    and start: "all_start w a b"
    and sil: "silent w a b k"
    and seen: "returncode w (4 + k) (polled a b k) = Some c"
    and fuel: "k div 2 < n"
  shows "main n w =
    (Some (SystemExit c),
     \<lparr>clock = 4 + k + 3, sigint_handler = Signal_handler,
      processes = [watch_handle a, run_handle b],
      trace = startup_trace @ poll_trace (watch_handle a) (run_handle b) (Suc k)
        @ [Terminate_request (watch_handle a), Terminate_request (run_handle b), Exit c]\<rparr>)"
proof -
  from quiet have "\<forall>t\<le>4 + k + 3. \<not> sigint w t" by simp
  from observed_exit_undisturbed [OF this start sil seen fuel] show ?thesis .
qed

lemma still_running:
  assumes quiet: "\<forall>t<4 + 2 * n. \<not> sigint w t"
    and start: "all_start w a b"
    and sil: "silent w a b (2 * n)"
  shows "main n w = (None, after_passes a b n)"
  using main_silent [OF assms, of 0] by simp

lemma interrupted_first:
  assumes "sigint_handler s = Signal_handler" "sigint w (clock s)"
  shows "poll_all w (p # ps) s = (Inl (SystemExit 0), s\<lparr>trace := trace s @ [Exit 0]\<rparr>)"
  using assms
  by (simp add: poll_def checked_def deliver_sigint_def signal_handler_def sys_exit_def)

lemma interrupted_second:
  assumes "sigint_handler s = Signal_handler" "\<not> sigint w (clock s)" "sigint w (Suc (clock s))"
    and "returncode w (clock s) (pid p) = None"
  shows "poll_all w (p # q # ps) s =
    (Inl (SystemExit 0), s\<lparr>clock := Suc (clock s), trace := trace s @ [Polled p, Exit 0]\<rparr>)"
  using assms
  by (simp add: poll_def checked_def deliver_sigint_def signal_handler_def sys_exit_def tick_def)

lemma interrupted_startup:
  assumes int: "sigint w t" and first: "\<forall>u<t. \<not> sigint w u" and t: "0 < t" "t < 4"
    and start: "all_start w a b"
  shows "main n w =
    (Some (SystemExit 0),
     \<lparr>clock = t, sigint_handler = Signal_handler, processes = [],
      trace = take t startup_trace @ [Exit 0]\<rparr>)"
proof -
  from start obtain x where sp: "spawn w build_cmd = Some x" "spawn w watch_cmd = Some a"
    "spawn w run_cmd = Some b"
    by (auto simp: all_start_def)
  from t have "t = Suc 0 \<or> t = Suc (Suc 0) \<or> t = Suc (Suc (Suc 0))" by arith
  then show ?thesis
  proof (elim disjE)
    assume t1: "t = Suc 0"
    with int first have "\<not> sigint w 0" "sigint w (Suc 0)" by simp_all
    then show ?thesis
      by (simp add: t1 main_def startup_def then_do_def signal_signal_def subprocess_run_def
          checked_def tick_def init_state_def deliver_sigint_def signal_handler_def sys_exit_def
          startup_trace_def)
  next
    assume t2: "t = Suc (Suc 0)"
    with int first have "\<not> sigint w 0" "\<not> sigint w (Suc 0)" "sigint w (Suc (Suc 0))"
      by simp_all
    with sp show ?thesis
      by (simp add: t2 main_def startup_def then_do_def signal_signal_def subprocess_run_def
          Popen_def checked_def tick_def init_state_def deliver_sigint_def signal_handler_def
          sys_exit_def startup_trace_def)
  next
    assume t3: "t = Suc (Suc (Suc 0))"
    with int first have "\<not> sigint w 0" "\<not> sigint w (Suc 0)" "\<not> sigint w (Suc (Suc 0))"
      "sigint w (Suc (Suc (Suc 0)))"
      by simp_all
    with sp show ?thesis
      by (simp add: t3 main_def startup_def then_do_def signal_signal_def subprocess_run_def
          Popen_def checked_def tick_def init_state_def deliver_sigint_def signal_handler_def
          sys_exit_def startup_trace_def)
  qed
qed

lemma interrupted_loop:
  assumes int: "sigint w (4 + k)" and first: "\<forall>u<4 + k. \<not> sigint w u"
    and start: "all_start w a b"
    and sil: "silent w a b k"
    and fuel: "k div 2 < n"
  shows "main n w =
    (Some (SystemExit 0),
     \<lparr>clock = 4 + k, sigint_handler = Signal_handler,
      processes = [watch_handle a, run_handle b],
      trace = startup_trace @ poll_trace (watch_handle a) (run_handle b) k @ [Exit 0]\<rparr>)"
proof -
  let ?p = "watch_handle a" and ?q = "run_handle b"
  define i where "i = k div 2"
  from fuel obtain m where n: "n = i + Suc m"
    unfolding i_def by (metis less_iff_Suc_add add_Suc_right)
  let ?s = "after_passes a b i"
  have ik: "2 * i \<le> k" unfolding i_def by simp
  from sil ik have "silent w a b (2 * i)" unfolding silent_def by simp
  moreover from first ik have "\<forall>u<4 + 2 * i. \<not> sigint w u" by simp
  ultimately have run: "main n w = while_true (Suc m) w ?s"
    unfolding n using start by (intro main_silent) simp_all
  have pr: "processes ?s = [?p, ?q]" by (simp add: after_passes_def)
  have ck: "clock ?s = 4 + 2 * i" by (simp add: after_passes_def)
  have hd: "sigint_handler ?s = Signal_handler" by (simp add: after_passes_def)
  show ?thesis
  proof (cases "even k")
    case True
    then have k: "k = 2 * i" unfolding i_def by simp
    from int have "sigint w (clock ?s)" by (simp add: ck k)
    from interrupted_first [OF hd this]
    have "while_true (Suc m) w ?s = (Some (SystemExit 0), ?s\<lparr>trace := trace ?s @ [Exit 0]\<rparr>)"
      by (simp add: pr del: poll_all.simps)
    then show ?thesis
      unfolding run by (simp add: k poll_trace_even after_passes_def)
  next
    case False
    then have k: "k = Suc (2 * i)" unfolding i_def by (simp add: odd_two_times_div_two_succ)
    from sil have "returncode w (4 + 2 * i) (polled a b (2 * i)) = None"
      unfolding silent_def k by simp
    then have none: "returncode w (clock ?s) (pid ?p) = None"
      by (simp add: ck polled_def watch_handle_def)
    from first have quiet: "\<not> sigint w (clock ?s)" by (simp add: ck k)
    from int have "sigint w (Suc (clock ?s))" by (simp add: ck k)
    from interrupted_second [OF hd quiet this none]
    have "while_true (Suc m) w ?s = (Some (SystemExit 0),
       ?s\<lparr>clock := Suc (clock ?s), trace := trace ?s @ [Polled ?p, Exit 0]\<rparr>)"
      by (simp add: pr del: poll_all.simps)
    then show ?thesis
      unfolding run by (simp add: k poll_trace_Suc poll_trace_even polled_def after_passes_def)
  qed
qed

lemma precedesI: "tr = pre @ x # post \<Longrightarrow> y \<in> set post \<Longrightarrow> precedes x y tr"
  unfolding precedes_def by (induction pre arbitrary: tr) auto

lemma requests_append: "requests (xs @ ys) = requests xs @ requests ys"
  by (induction xs rule: requests.induct) simp_all

lemma requests_poll_trace: "requests (poll_trace p q m) = []"
  by (induction m) (simp_all add: poll_trace_Suc requests_append, simp add: poll_trace_def)

lemma requests_startup_trace: "requests startup_trace = []"
  by (simp add: startup_trace_def)

lemma calm_start: "all_start calm_world 101 102"
  by (simp add: all_start_def calm_world_def demo_spawn_def build_cmd_def watch_cmd_def run_cmd_def)


text \<open>An interrupt that arrives before line 8 has run meets Python's default handler.\<close>

lemma interrupt_before_install: "sigint w 0 \<Longrightarrow> fst (main n w) = Some KeyboardInterrupt"
  by (simp add: main_def startup_def then_do_def signal_signal_def checked_def
      deliver_sigint_def init_state_def)

subsection \<open>What no statement of the loop touches\<close>

lemmas stmt_defs = poll_def terminate_def exit_with_def checked_def deliver_sigint_def
  signal_handler_def sys_exit_def tick_def

lemmas run_defs = main_def startup_def then_do_def signal_signal_def subprocess_run_def
  Popen_def stmt_defs init_state_def

lemmas world_defs = interrupted_at_def watch_exited_world_def both_exited_world_def
  calm_world_def demo_spawn_def build_cmd_def watch_cmd_def run_cmd_def

lemma terminate_all_processes: "processes (snd (terminate_all w ps s)) = processes s"
  by (induction ps arbitrary: s) (auto simp: stmt_defs split: handler.splits)

lemma poll_all_processes: "processes (snd (poll_all w ps s)) = processes s"
proof (induction ps arbitrary: s)
  case Nil
  show ?case by simp
next
  case (Cons p ps)
  show ?case
  proof (cases "sigint w (clock s)")
    case True
    then show ?thesis by (simp add: stmt_defs split: handler.splits)
  next
    case False
    let ?s' = "tick (Polled p) s"
    from False have pl: "poll w p s = (Inr (returncode w (clock s) (pid p)), ?s')"
      by (simp add: poll_def checked_def)
    show ?thesis
    proof (cases "returncode w (clock s) (pid p)")
      case None
      with pl Cons.IH [of ?s'] show ?thesis by (simp add: tick_def)
    next
      case (Some c)
      obtain r s'' where ta: "terminate_all w (processes ?s') ?s' = (r, s'')"
        by (cases "terminate_all w (processes ?s') ?s'")
      with terminate_all_processes [of w "processes ?s'" ?s']
      have "processes s'' = processes s" by (simp add: tick_def)
      with pl Some ta show ?thesis
        by (cases r) (auto simp: exit_with_def checked_def deliver_sigint_def
            signal_handler_def sys_exit_def split: handler.splits)
    qed
  qed
qed

lemma while_true_processes: "processes (snd (while_true n w s)) = processes s"
proof (induction n arbitrary: s)
  case 0
  show ?case by simp
next
  case (Suc n)
  obtain r s' where pa: "poll_all w (processes s) s = (r, s')"
    by (cases "poll_all w (processes s) s")
  with poll_all_processes [of w "processes s" s] have "processes s' = processes s" by simp
  with pa Suc.IH [of s'] show ?case by (cases r) simp_all
qed

subsection \<open>Traces only grow\<close>

lemma terminate_all_extends: "\<exists>r. trace (snd (terminate_all w ps s)) = trace s @ r"
proof (induction ps arbitrary: s)
  case Nil
  show ?case by simp
next
  case (Cons p ps)
  show ?case
  proof (cases "sigint w (clock s)")
    case True
    then show ?thesis by (simp add: stmt_defs split: handler.splits)
  next
    case False
    from Cons.IH [of "tick (Terminate_request p) s"] False show ?thesis
      by (auto simp: terminate_def checked_def tick_def)
  qed
qed

lemma exit_with_extends: "\<exists>r. trace (snd (exit_with w c s)) = trace s @ r"
  by (simp add: stmt_defs split: handler.splits)

lemma poll_all_extends: "\<exists>r. trace (snd (poll_all w ps s)) = trace s @ r"
proof (induction ps arbitrary: s)
  case Nil
  show ?case by simp
next
  case (Cons p ps)
  show ?case
  proof (cases "sigint w (clock s)")
    case True
    then show ?thesis by (simp add: stmt_defs split: handler.splits)
  next
    case False
    let ?s' = "tick (Polled p) s"
    from False have pl: "poll w p s = (Inr (returncode w (clock s) (pid p)), ?s')"
      by (simp add: poll_def checked_def)
    show ?thesis
    proof (cases "returncode w (clock s) (pid p)")
      case None
      with pl Cons.IH [of ?s'] show ?thesis by (auto simp: tick_def)
    next
      case (Some c)
      obtain r s'' where ta: "terminate_all w (processes ?s') ?s' = (r, s'')"
        by (cases "terminate_all w (processes ?s') ?s'")
      with terminate_all_extends [of w "processes ?s'" ?s']
      obtain r1 where r1: "trace s'' = trace s @ Polled p # r1" by (auto simp: tick_def)
      show ?thesis
      proof (cases r)
        case (Inl e)
        with pl Some ta r1 show ?thesis by simp
      next
        case (Inr u)
        from exit_with_extends [of w c s''] obtain r2
          where "trace (snd (exit_with w c s'')) = trace s'' @ r2" ..
        with Inr pl Some ta r1 show ?thesis by simp
      qed
    qed
  qed
qed

lemma poll_all_first:
  assumes "\<not> sigint w (clock s)"
  shows "\<exists>r. trace (snd (poll_all w (p # ps) s)) = trace s @ Polled p # r"
proof -
  let ?s' = "tick (Polled p) s"
  from assms have pl: "poll w p s = (Inr (returncode w (clock s) (pid p)), ?s')"
    by (simp add: poll_def checked_def)
  show ?thesis
  proof (cases "returncode w (clock s) (pid p)")
    case None
    with pl poll_all_extends [of w ps ?s'] show ?thesis by (auto simp: tick_def)
  next
    case (Some c)
    obtain r s'' where ta: "terminate_all w (processes ?s') ?s' = (r, s'')"
      by (cases "terminate_all w (processes ?s') ?s'")
    with terminate_all_extends [of w "processes ?s'" ?s']
    obtain r1 where r1: "trace s'' = trace s @ Polled p # r1" by (auto simp: tick_def)
    show ?thesis
    proof (cases r)
      case (Inl e)
      with pl Some ta r1 show ?thesis by simp
    next
      case (Inr u)
      from exit_with_extends [of w c s''] obtain r2
        where "trace (snd (exit_with w c s'')) = trace s'' @ r2" ..
      with Inr pl Some ta r1 show ?thesis by simp
    qed
  qed
qed

lemma while_true_extends: "\<exists>r. trace (snd (while_true n w s)) = trace s @ r"
proof (induction n arbitrary: s)
  case 0
  show ?case by simp
next
  case (Suc n)
  obtain r s' where pa: "poll_all w (processes s) s = (r, s')"
    by (cases "poll_all w (processes s) s")
  with poll_all_extends [of w "processes s" s] obtain r1 where r1: "trace s' = trace s @ r1"
    by auto
  from Suc.IH [of s'] obtain r2 where "trace (snd (while_true n w s')) = trace s' @ r2" ..
  with pa r1 show ?case by (cases r) simp_all
qed

lemma main_after_startup:
  assumes "\<forall>t<4. \<not> sigint w t" and "all_start w a b"
  shows "main n w = while_true n w (loop_entry (watch_handle a) (run_handle b))"
proof -
  from assms(2) obtain x where "spawn w build_cmd = Some x" "spawn w watch_cmd = Some a"
    "spawn w run_cmd = Some b"
    by (auto simp: all_start_def)
  from startup_completes [OF assms(1) this] show ?thesis
    by (simp add: main_def)
qed

subsection \<open>The return code of the build is never read\<close>

lemma terminate_build_code: "terminate (w\<lparr>build_returncode := c\<rparr>) p = terminate w p"
  by (rule ext) (simp add: terminate_def checked_def)

lemma poll_build_code: "poll (w\<lparr>build_returncode := c\<rparr>) p = poll w p"
  by (rule ext) (simp add: poll_def checked_def)

lemma exit_with_build_code: "exit_with (w\<lparr>build_returncode := c\<rparr>) code = exit_with w code"
  by (rule ext) (simp add: exit_with_def checked_def)

lemma terminate_all_build_code:
  "terminate_all (w\<lparr>build_returncode := c\<rparr>) ps s = terminate_all w ps s"
  by (induction ps arbitrary: s)
     (simp_all add: terminate_build_code split: prod.splits sum.splits)

lemma poll_all_build_code:
  "poll_all (w\<lparr>build_returncode := c\<rparr>) ps s = poll_all w ps s"
  by (induction ps arbitrary: s)
     (simp_all add: poll_build_code exit_with_build_code terminate_all_build_code
        split: prod.splits sum.splits option.splits)

lemma while_true_build_code:
  "while_true n (w\<lparr>build_returncode := c\<rparr>) s = while_true n w s"
  by (induction n arbitrary: s)
     (simp_all add: poll_all_build_code split: prod.splits sum.splits)

lemma startup_build_code:
  "startup (w\<lparr>build_returncode := c\<rparr>) s = startup w s"
  by (simp add: startup_def then_do_def signal_signal_def subprocess_run_def Popen_def
      checked_def split: option.splits prod.splits sum.splits)

lemma main_build_code: "main n (w\<lparr>build_returncode := c\<rparr>) = main n w"
  by (simp add: main_def startup_build_code while_true_build_code split: prod.splits sum.splits)

section \<open>Properties of the supervisor\<close>

text \<open>
  In all statements below \<open>main n w\<close> is the run of the script in world \<open>w\<close>, cut after
  \<open>n\<close> passes of the loop. Its first component is \<open>Some e\<close> when the run has ended with
  the uncaught exception \<open>e\<close> (\<open>SystemExit c\<close> is a process exit with the argument \<open>c\<close>
  handed to \<open>sys.exit\<close>), and \<open>None\<close> when the loop is still running.
\<close>

text \<open>
  Claim C1, as amended. If no interrupt is delivered up to the supervisor's exit, all
  commands start, the loop's polls before poll \<open>k\<close> have all reported \<open>None\<close>, and poll
  \<open>k\<close> finds that the child it addresses has exited with code \<open>N\<close> while the other child
  is still running at that instant, then the supervisor exits with code \<open>N\<close>, as soon as
  the run is given the \<open>k div 2 + 1\<close> passes that reach this poll. The exit is the call
  made at time \<open>4 + k + 3\<close>, after the poll and the two termination requests.
\<close>

theorem first_exit_code_propagates:
  assumes "\<forall>t\<le>4 + k + 3. \<not> sigint w t"
    and "all_start w a b"
    and "silent w a b k"
    and "returncode w (4 + k) (polled a b k) = Some N"
    and "returncode w (4 + k) (other a b k) = None"
    and "k div 2 < n"
  shows "fst (main n w) = Some (SystemExit N)"
  using observed_exit_undisturbed [OF assms(1-4) assms(6)] by simp

theorem first_exit_code_propagates_witness:
  "(\<forall>t. \<not> sigint run_exits_world t) \<and> all_start run_exits_world 101 102
   \<and> silent run_exits_world 101 102 3
   \<and> returncode run_exits_world (4 + 3) (polled 101 102 3) = Some 3
   \<and> returncode run_exits_world (4 + 3) (other 101 102 3) = None
   \<and> 3 div 2 < (2::nat)
   \<and> fst (main 2 run_exits_world) = Some (SystemExit 3)"
proof -
  have h0: "\<forall>t. \<not> sigint run_exits_world t"
    by (simp add: run_exits_world_def calm_world_def)
  then have h1: "\<forall>t\<le>4 + 3 + 3. \<not> sigint run_exits_world t" by simp
  have h2: "all_start run_exits_world 101 102"
    using calm_start by (simp add: all_start_def run_exits_world_def)
  have h3: "silent run_exits_world 101 102 3"
    by (simp add: silent_def run_exits_world_def polled_def)
  have h4: "returncode run_exits_world (4 + 3) (polled 101 102 3) = Some 3"
    by (simp add: run_exits_world_def polled_def)
  have h5: "returncode run_exits_world (4 + 3) (other 101 102 3) = None"
    by (simp add: run_exits_world_def other_def)
  have h6: "3 div 2 < (2::nat)" by simp
  from first_exit_code_propagates [OF h1 h2 h3 h4 h5 h6] h0 h2 h3 h4 h5 h6
  show ?thesis by blast
qed

text \<open>
  Claim C1, as written, fails when an interrupt arrives between the poll that sees the exit
  and line 23. The watcher has exited with code 1 and the runner is running; the first
  poll, at time 4, sees it; both termination requests are made at times 5 and 6; the
  interrupt at time 7 is served before \<open>sys.exit(code)\<close>, and the handler exits with 0.
\<close>

theorem interrupt_before_exit_overrides_code:
  "all_start (interrupted_at 7 watch_exited_world) 101 102
   \<and> silent (interrupted_at 7 watch_exited_world) 101 102 0
   \<and> returncode (interrupted_at 7 watch_exited_world) (4 + 0) (polled 101 102 0) = Some 1
   \<and> returncode (interrupted_at 7 watch_exited_world) (4 + 0) (other 101 102 0) = None
   \<and> 0 div 2 < (1::nat)
   \<and> fst (main 1 (interrupted_at 7 watch_exited_world)) = Some (SystemExit 0)
   \<and> fst (main 1 (interrupted_at 7 watch_exited_world)) \<noteq> Some (SystemExit 1)"
proof -
  have "main 1 (interrupted_at 7 watch_exited_world) =
    (Some (SystemExit 0),
     \<lparr>clock = 7, sigint_handler = Signal_handler,
      processes = [watch_handle 101, run_handle 102],
      trace = startup_trace @ [Polled (watch_handle 101), Terminate_request (watch_handle 101),
        Terminate_request (run_handle 102), Exit 0]\<rparr>)"
    by (simp add: run_defs world_defs startup_trace_def watch_handle_def run_handle_def)
  then show ?thesis
    by (simp add: all_start_def silent_def polled_def other_def world_defs)
qed

text \<open>
  Claim C2, as amended. The script performs its startup actions in this order: it installs
  the interrupt handler, runs the build command to completion, launches the watcher,
  launches the runner, and enters the polling loop with a poll of the watcher. (The
  claim as written places the installation of the handler after the two launches.)
\<close>

theorem handler_installed_before_build_and_launch:
  assumes quiet: "\<forall>t<5. \<not> sigint w t"
    and start: "all_start w a b"
    and fuel: "0 < n"
  shows "take 5 (trace (snd (main n w))) =
    [Install_handler, Run_to_completion build_cmd, Launch watch_cmd, Launch run_cmd,
     Polled (watch_handle a)]"
proof -
  let ?s = "loop_entry (watch_handle a) (run_handle b)"
  from fuel obtain m where n: "n = Suc m" by (cases n) simp_all
  from quiet have "\<forall>t<4. \<not> sigint w t" by simp
  from main_after_startup [OF this start] have run: "main n w = while_true n w ?s" .
  from quiet have "\<not> sigint w (clock ?s)" by (simp add: loop_entry_def)
  from poll_all_first [OF this, of "watch_handle a" "[run_handle b]"]
  obtain r1 where r1: "trace (snd (poll_all w (processes ?s) ?s))
      = trace ?s @ Polled (watch_handle a) # r1"
    by (auto simp: loop_entry_def)
  obtain r s' where pa: "poll_all w (processes ?s) ?s = (r, s')"
    by (cases "poll_all w (processes ?s) ?s")
  from while_true_extends [of m w s'] obtain r2
    where "trace (snd (while_true m w s')) = trace s' @ r2" ..
  with pa r1 have "\<exists>r3. trace (snd (while_true n w ?s)) = trace ?s @ Polled (watch_handle a) # r3"
    unfolding n by (cases r) simp_all
  then show ?thesis
    unfolding run by (auto simp: loop_entry_def startup_trace_def)
qed

theorem handler_installed_before_build_and_launch_witness:
  "(\<forall>t. \<not> sigint calm_world t) \<and> all_start calm_world 101 102 \<and> (0::nat) < 1
   \<and> take 5 (trace (snd (main 1 calm_world))) =
    [Install_handler, Run_to_completion build_cmd, Launch watch_cmd, Launch run_cmd,
     Polled (watch_handle 101)]"
proof -
  have h0: "\<forall>t. \<not> sigint calm_world t" by (simp add: calm_world_def)
  then have h1: "\<forall>t<5. \<not> sigint calm_world t" by simp
  have h3: "(0::nat) < 1" by simp
  from handler_installed_before_build_and_launch [OF h1 calm_start h3] h0 calm_start h3
  show ?thesis by blast
qed

text \<open>
  Claim C2, as written, fails on the run of the calm world: the handler is installed before
  the children are launched, so no launch precedes \<open>Install_handler\<close> in the trace.
\<close>

theorem handler_not_installed_after_launch:
  "\<not> spec_startup_order (watch_handle 101) (trace (snd (main 1 calm_world)))"
proof -
  have "silent calm_world 101 102 (2 * 1)"
    by (simp add: silent_def calm_world_def)
  moreover have "\<forall>t<4 + 2 * 1. \<not> sigint calm_world t"
    by (simp add: calm_world_def)
  ultimately have "main 1 calm_world = (None, after_passes 101 102 1)"
    using calm_start by (intro still_running)
  then show ?thesis
    by (simp add: spec_startup_order_def precedes_def after_passes_def startup_trace_def)
qed

text \<open>
  Claim C3, as amended. In a run in which no interrupt is delivered up to the supervisor's
  exit and the loop's poll \<open>k\<close> is the first to see an exit, with code \<open>c\<close>, the child
  that this poll does not address is sent a termination request, and that request comes
  before the supervisor's own exit, which is the last action of the run.
\<close>

theorem sibling_terminated_before_exit:
  assumes "\<forall>t\<le>4 + k + 3. \<not> sigint w t"
    and "all_start w a b"
    and "silent w a b k"
    and "returncode w (4 + k) (polled a b k) = Some c"
    and "k div 2 < n"
  shows "precedes (Terminate_request (other (watch_handle a) (run_handle b) k)) (Exit c)
           (trace (snd (main n w)))
         \<and> last (trace (snd (main n w))) = Exit c
         \<and> fst (main n w) = Some (SystemExit c)"
proof -
  let ?p = "watch_handle a" and ?q = "run_handle b"
  let ?tr = "trace (snd (main n w))"
  have tr: "?tr = startup_trace @ poll_trace ?p ?q (Suc k)
        @ [Terminate_request ?p, Terminate_request ?q, Exit c]"
    and out: "fst (main n w) = Some (SystemExit c)"
    using observed_exit_undisturbed [OF assms] by simp_all
  have "precedes (Terminate_request (other ?p ?q k)) (Exit c) ?tr"
  proof (cases "even k")
    case True
    have "?tr = (startup_trace @ poll_trace ?p ?q (Suc k) @ [Terminate_request ?p])
        @ Terminate_request ?q # [Exit c]"
      by (simp add: tr)
    then have "precedes (Terminate_request ?q) (Exit c) ?tr"
      by (rule precedesI) simp
    with True show ?thesis by (simp add: other_def)
  next
    case False
    have "?tr = (startup_trace @ poll_trace ?p ?q (Suc k))
        @ Terminate_request ?p # [Terminate_request ?q, Exit c]"
      by (simp add: tr)
    then have "precedes (Terminate_request ?p) (Exit c) ?tr"
      by (rule precedesI) simp
    with False show ?thesis by (simp add: other_def)
  qed
  moreover have "last ?tr = Exit c" by (simp add: tr)
  ultimately show ?thesis using out by simp
qed

theorem sibling_terminated_before_exit_witness:
  "(\<forall>t. \<not> sigint run_exits_world t) \<and> all_start run_exits_world 101 102
   \<and> silent run_exits_world 101 102 3
   \<and> returncode run_exits_world (4 + 3) (polled 101 102 3) = Some 3
   \<and> 3 div 2 < (2::nat)
   \<and> precedes (Terminate_request (other (watch_handle 101) (run_handle 102) 3)) (Exit 3)
           (trace (snd (main 2 run_exits_world)))
   \<and> last (trace (snd (main 2 run_exits_world))) = Exit 3
   \<and> fst (main 2 run_exits_world) = Some (SystemExit 3)"
proof -
  have h0: "\<forall>t. \<not> sigint run_exits_world t"
    by (simp add: run_exits_world_def calm_world_def)
  then have h1: "\<forall>t\<le>4 + 3 + 3. \<not> sigint run_exits_world t" by simp
  have h2: "all_start run_exits_world 101 102"
    using calm_start by (simp add: all_start_def run_exits_world_def)
  have h3: "silent run_exits_world 101 102 3"
    by (simp add: silent_def run_exits_world_def polled_def)
  have h4: "returncode run_exits_world (4 + 3) (polled 101 102 3) = Some 3"
    by (simp add: run_exits_world_def polled_def)
  have h5: "3 div 2 < (2::nat)" by simp
  from sibling_terminated_before_exit [OF h1 h2 h3 h4 h5] h0 h2 h3 h4 h5
  show ?thesis by blast
qed

text \<open>
  Claim C3, as written, fails when an interrupt arrives right after the poll that sees the
  exit. The watcher has exited with code 1; the poll at time 4 sees it; the interrupt at
  time 5 is served before the first \<open>terminate()\<close>, and the handler exits. The runner was
  never sent a termination request.
\<close>

theorem interrupt_after_poll_skips_sibling:
  "all_start (interrupted_at 5 watch_exited_world) 101 102
   \<and> silent (interrupted_at 5 watch_exited_world) 101 102 0
   \<and> returncode (interrupted_at 5 watch_exited_world) (4 + 0) (polled 101 102 0) = Some 1
   \<and> 0 div 2 < (1::nat)
   \<and> fst (main 1 (interrupted_at 5 watch_exited_world)) = Some (SystemExit 0)
   \<and> trace (snd (main 1 (interrupted_at 5 watch_exited_world)))
       = startup_trace @ [Polled (watch_handle 101), Exit 0]
   \<and> Terminate_request (other (watch_handle 101) (run_handle 102) 0)
       \<notin> set (trace (snd (main 1 (interrupted_at 5 watch_exited_world))))"
proof -
  have "main 1 (interrupted_at 5 watch_exited_world) =
    (Some (SystemExit 0),
     \<lparr>clock = 5, sigint_handler = Signal_handler,
      processes = [watch_handle 101, run_handle 102],
      trace = startup_trace @ [Polled (watch_handle 101), Exit 0]\<rparr>)"
    by (simp add: run_defs world_defs startup_trace_def watch_handle_def run_handle_def)
  then show ?thesis
    by (simp add: all_start_def silent_def polled_def other_def world_defs startup_trace_def)
qed

text \<open>
  Claim C4. Let an interrupt arrive at time \<open>t\<close>, the first one, after the handler has
  been installed (\<open>0 < t\<close>) and while neither child has exited. Then the supervisor exits
  with code \<open>0\<close>, at time \<open>t\<close> itself: no further library call is made, the exit is the
  last action, and no child was sent a termination request.
\<close>

theorem interrupt_exits_with_zero:
  assumes int: "sigint w t"
    and first: "\<forall>u<t. \<not> sigint w u"
    and installed: "0 < t"
    and start: "all_start w a b"
    and running: "\<forall>u<t. returncode w u a = None \<and> returncode w u b = None"
    and fuel: "t \<le> n"
  shows "fst (main n w) = Some (SystemExit 0)
         \<and> clock (snd (main n w)) = t
         \<and> last (trace (snd (main n w))) = Exit 0
         \<and> requests (trace (snd (main n w))) = []"
proof (cases "t < 4")
  case True
  have "requests (take t startup_trace) = []"
    using True installed
    by (cases t rule: nat.exhaust)
       (auto simp: startup_trace_def take_Cons' split: if_splits)
  with interrupted_startup [OF int first installed True start, of n]
  show ?thesis by (simp add: requests_append)
next
  case False
  define k where "k = t - 4"
  with False have t: "t = 4 + k" by simp
  have sil: "silent w a b k"
    unfolding silent_def using running by (simp add: t polled_def)
  from fuel have "k div 2 < n" unfolding t by simp
  from interrupted_loop [OF int [unfolded t] first [unfolded t] start sil this]
  show ?thesis
    by (simp add: t requests_append requests_poll_trace requests_startup_trace)
qed

theorem interrupt_exits_with_zero_witness:
  "sigint interrupted_world 6
   \<and> list_all (\<lambda>u. \<not> sigint interrupted_world u) [0..<6] \<and> (0::nat) < 6
   \<and> all_start interrupted_world 101 102
   \<and> list_all (\<lambda>u. returncode interrupted_world u 101 = None
                    \<and> returncode interrupted_world u 102 = None) [0..<6]
   \<and> (6::nat) \<le> 6
   \<and> fst (main 6 interrupted_world) = Some (SystemExit 0)
   \<and> clock (snd (main 6 interrupted_world)) = 6
   \<and> last (trace (snd (main 6 interrupted_world))) = Exit 0
   \<and> requests (trace (snd (main 6 interrupted_world))) = []"
proof -
  have h1: "sigint interrupted_world 6" by (simp add: interrupted_world_def)
  have h2: "\<forall>u<6. \<not> sigint interrupted_world u" by (simp add: interrupted_world_def)
  have h3: "(0::nat) < 6" by simp
  have h4: "all_start interrupted_world 101 102"
    using calm_start by (simp add: all_start_def interrupted_world_def)
  have h5: "\<forall>u<6. returncode interrupted_world u 101 = None
      \<and> returncode interrupted_world u 102 = None"
    by (simp add: interrupted_world_def calm_world_def)
  have h6: "(6::nat) \<le> 6" by simp
  from h2 have l2: "list_all (\<lambda>u. \<not> sigint interrupted_world u) [0..<6]"
    by (simp add: list_all_iff)
  from h5 have l5: "list_all (\<lambda>u. returncode interrupted_world u 101 = None
      \<and> returncode interrupted_world u 102 = None) [0..<6]"
    by (simp add: list_all_iff)
  from interrupt_exits_with_zero [OF h1 h2 h3 h4 h5 h6] h1 l2 h3 h4 l5 h6
  show ?thesis by blast
qed

text \<open>
  Claim C5. Two worlds that differ only in the exit code of the build give the same run:
  the same outcome, the same final state, the same trace. And whenever the startup is not
  interrupted and the commands can be started, the run goes on to launch both children
  after the build, whatever the build returned.
\<close>

theorem build_code_is_ignored:
  "main n (w\<lparr>build_returncode := c\<rparr>) = main n (w\<lparr>build_returncode := c'\<rparr>)
   \<and> ((\<forall>t<4. \<not> sigint w t) \<and> all_start w a b \<longrightarrow>
        take 4 (trace (snd (main n (w\<lparr>build_returncode := c\<rparr>)))) =
          [Install_handler, Run_to_completion build_cmd, Launch watch_cmd, Launch run_cmd])"
proof -
  have "take 4 (trace (snd (main n w))) = startup_trace"
    if ok: "\<forall>t<4. \<not> sigint w t" "all_start w a b"
  proof -
    let ?s = "loop_entry (watch_handle a) (run_handle b)"
    from while_true_extends [of n w ?s]
    obtain r where "trace (snd (while_true n w ?s)) = trace ?s @ r" ..
    then have "trace (snd (main n w)) = startup_trace @ r"
      by (simp add: main_after_startup [OF ok] loop_entry_def)
    then show ?thesis by (simp add: startup_trace_def)
  qed
  then show ?thesis by (simp add: main_build_code startup_trace_def)
qed

theorem build_code_is_ignored_witness:
  "main 3 (run_exits_world\<lparr>build_returncode := 0\<rparr>)
     = main 3 (run_exits_world\<lparr>build_returncode := 101\<rparr>)
   \<and> (\<forall>t. \<not> sigint run_exits_world t) \<and> all_start run_exits_world 101 102
   \<and> take 4 (trace (snd (main 3 (run_exits_world\<lparr>build_returncode := 0\<rparr>)))) =
          [Install_handler, Run_to_completion build_cmd, Launch watch_cmd, Launch run_cmd]"
proof -
  have h0: "\<forall>t. \<not> sigint run_exits_world t"
    by (simp add: run_exits_world_def calm_world_def)
  then have h1: "\<forall>t<4. \<not> sigint run_exits_world t" by simp
  have h2: "all_start run_exits_world 101 102"
    using calm_start by (simp add: all_start_def run_exits_world_def)
  from build_code_is_ignored [where n = 3 and w = run_exits_world and c = 0 and c' = 101
      and a = 101 and b = 102] h0 h1 h2
  show ?thesis by blast
qed

text \<open>
  Claim C6. In an interrupt-free run in which all commands start, the supervisor has
  exited within \<open>n\<close> passes if and only if one of the polls the loop makes in these passes
  reports a return code. As long as every poll reports \<open>None\<close> the loop is still running,
  and all it has done since the startup is to poll the watcher and the runner in turn,
  pass after pass, with no other action and no pause in between.
\<close>

theorem loop_exits_iff_some_poll_reports:
  assumes quiet: "\<forall>t. \<not> sigint w t"
    and start: "all_start w a b"
  shows "(fst (main n w) \<noteq> None)
           = (\<exists>k<2 * n. silent w a b k \<and> returncode w (4 + k) (polled a b k) \<noteq> None)
         \<and> (silent w a b (2 * n) \<longrightarrow>
              fst (main n w) = None
              \<and> clock (snd (main n w)) = 4 + 2 * n
              \<and> trace (snd (main n w)) = startup_trace
                  @ concat (replicate n [Polled (watch_handle a), Polled (run_handle b)]))"
proof -
  have still: "main n w = (None, after_passes a b n)" if "silent w a b (2 * n)"
    using still_running [OF _ start that] quiet by simp
  have exits: "fst (main n w) \<noteq> None"
    if "k < 2 * n" "silent w a b k" "returncode w (4 + k) (polled a b k) \<noteq> None" for k
  proof -
    from that(3) obtain c where "returncode w (4 + k) (polled a b k) = Some c" by auto
    moreover from that(1) have "k div 2 < n" by simp
    ultimately show ?thesis using observed_exit [OF quiet start that(2)] by simp
  qed
  have found: "\<exists>k<2 * n. silent w a b k \<and> returncode w (4 + k) (polled a b k) \<noteq> None"
    if "fst (main n w) \<noteq> None"
  proof -
    from that still have "\<not> silent w a b (2 * n)" by auto
    then have ex: "\<exists>j. j < 2 * n \<and> returncode w (4 + j) (polled a b j) \<noteq> None"
      unfolding silent_def by simp
    define k where "k = (LEAST j. j < 2 * n \<and> returncode w (4 + j) (polled a b j) \<noteq> None)"
    from ex have least: "k < 2 * n \<and> returncode w (4 + k) (polled a b k) \<noteq> None"
      unfolding k_def by (rule LeastI_ex)
    have "silent w a b k"
      unfolding silent_def
    proof (intro allI impI)
      fix j assume jk: "j < k"
      then have "\<not> (j < 2 * n \<and> returncode w (4 + j) (polled a b j) \<noteq> None)"
        unfolding k_def by (rule not_less_Least)
      moreover from jk least have "j < 2 * n" by simp
      ultimately show "returncode w (4 + j) (polled a b j) = None" by simp
    qed
    with least have "k < 2 * n \<and> silent w a b k
        \<and> returncode w (4 + k) (polled a b k) \<noteq> None"
      by simp
    then show ?thesis by blast
  qed
  from exits found still show ?thesis
    by (auto simp: after_passes_def)
qed

theorem loop_exits_iff_some_poll_reports_witness:
  "(\<forall>t. \<not> sigint run_exits_world t) \<and> all_start run_exits_world 101 102
   \<and> (fst (main 2 run_exits_world) \<noteq> None)
   \<and> (\<exists>k<2 * 2. silent run_exits_world 101 102 k
          \<and> returncode run_exits_world (4 + k) (polled 101 102 k) \<noteq> None)
   \<and> silent run_exits_world 101 102 (2 * 1)
   \<and> fst (main 1 run_exits_world) = None
   \<and> clock (snd (main 1 run_exits_world)) = 4 + 2 * 1
   \<and> trace (snd (main 1 run_exits_world)) = startup_trace
        @ concat (replicate 1 [Polled (watch_handle 101), Polled (run_handle 102)])"
proof -
  have h1: "\<forall>t. \<not> sigint run_exits_world t"
    by (simp add: run_exits_world_def calm_world_def)
  have h2: "all_start run_exits_world 101 102"
    using calm_start by (simp add: all_start_def run_exits_world_def)
  have h3: "silent run_exits_world 101 102 3"
    by (simp add: silent_def run_exits_world_def polled_def)
  have h4: "returncode run_exits_world (4 + 3) (polled 101 102 3) \<noteq> None"
    by (simp add: run_exits_world_def polled_def)
  have h5: "silent run_exits_world 101 102 (2 * 1)"
    by (simp add: silent_def run_exits_world_def polled_def)
  have "\<exists>k<2 * 2. silent run_exits_world 101 102 k
          \<and> returncode run_exits_world (4 + k) (polled 101 102 k) \<noteq> None"
    using h3 h4 by (intro exI [of _ 3]) simp
  with loop_exits_iff_some_poll_reports [OF h1 h2, of 2]
    loop_exits_iff_some_poll_reports [OF h1 h2, of 1] h1 h2 h5
  show ?thesis by blast
qed

text \<open>
  Claim C7. If the watcher or the runner cannot be started, the run ends with the uncaught
  \<open>OSError\<close> of that launch. Each command was tried at most once, nothing was done after
  the failing launch, the loop was never entered and the process list was never bound.
\<close>

theorem launch_failure_crashes:
  assumes quiet: "\<forall>t<4. \<not> sigint w t"
    and build: "spawn w build_cmd \<noteq> None"
    and fails: "spawn w watch_cmd = None \<or> spawn w run_cmd = None"
  shows "fst (main n w) = Some OSError
         \<and> trace (snd (main n w)) =
             (if spawn w watch_cmd = None
              then [Install_handler, Run_to_completion build_cmd, Launch watch_cmd]
              else [Install_handler, Run_to_completion build_cmd, Launch watch_cmd, Launch run_cmd])
         \<and> processes (snd (main n w)) = []"
proof -
  from quiet have "\<not> sigint w 0" "\<not> sigint w (Suc 0)" "\<not> sigint w (Suc (Suc 0))"
    "\<not> sigint w (Suc (Suc (Suc 0)))"
    by simp_all
  with build fails show ?thesis
    by (auto simp: main_def startup_def then_do_def signal_signal_def subprocess_run_def
        Popen_def checked_def tick_def init_state_def)
qed

theorem launch_failure_crashes_witness:
  "(\<forall>t. \<not> sigint no_watch_world t) \<and> spawn no_watch_world build_cmd \<noteq> None
   \<and> (spawn no_watch_world watch_cmd = None \<or> spawn no_watch_world run_cmd = None)
   \<and> fst (main 5 no_watch_world) = Some OSError
   \<and> trace (snd (main 5 no_watch_world)) =
        [Install_handler, Run_to_completion build_cmd, Launch watch_cmd]
   \<and> processes (snd (main 5 no_watch_world)) = []"
proof -
  have h0: "\<forall>t. \<not> sigint no_watch_world t"
    by (simp add: no_watch_world_def calm_world_def)
  then have h1: "\<forall>t<4. \<not> sigint no_watch_world t" by simp
  have h2: "spawn no_watch_world build_cmd \<noteq> None"
    by (simp add: no_watch_world_def demo_spawn_def build_cmd_def watch_cmd_def)
  have h3: "spawn no_watch_world watch_cmd = None"
    by (simp add: no_watch_world_def)
  then have h4: "spawn no_watch_world watch_cmd = None \<or> spawn no_watch_world run_cmd = None"
    by simp
  from launch_failure_crashes [OF h1 h2 h4, of 5] h0 h2 h3 h4 show ?thesis by simp
qed

text \<open>
  Claim C8. Once the startup has completed, the process list holds exactly the two handles
  launched at startup, in the order watcher, runner, in every state the run can be cut at:
  after any number of passes, at an exit, and at an interrupt delivered at any instant.
\<close>

theorem process_list_fixed:
  assumes "\<forall>t<4. \<not> sigint w t" and "all_start w a b"
  shows "processes (snd (main n w)) = [watch_handle a, run_handle b]"
proof -
  from assms(2) obtain x where "spawn w build_cmd = Some x" "spawn w watch_cmd = Some a"
    "spawn w run_cmd = Some b"
    by (auto simp: all_start_def)
  from startup_completes [OF assms(1) this]
  have "main n w = while_true n w (loop_entry (watch_handle a) (run_handle b))"
    by (simp add: main_def)
  then show ?thesis by (simp add: while_true_processes loop_entry_def)
qed

theorem process_list_fixed_witness:
  "list_all (\<lambda>t. \<not> sigint interrupted_world t) [0..<4] \<and> all_start interrupted_world 101 102
   \<and> processes (snd (main 9 interrupted_world)) = [watch_handle 101, run_handle 102]"
proof -
  have h1: "\<forall>t<4. \<not> sigint interrupted_world t" by (simp add: interrupted_world_def)
  have h2: "all_start interrupted_world 101 102"
    using calm_start by (simp add: all_start_def interrupted_world_def)
  from h1 have l1: "list_all (\<lambda>t. \<not> sigint interrupted_world t) [0..<4]"
    by (simp add: list_all_iff)
  from process_list_fixed [OF h1 h2] l1 h2 show ?thesis by blast
qed




text \<open>
  Claim C10, as amended. When no interrupt is delivered up to the supervisor's exit and an
  observed exit ends the run, the termination requests that were sent are exactly the
  handles of the process list, in list order: the surviving sibling and also the child
  whose exit was observed.
\<close>

theorem every_handle_is_sent_terminate:
  assumes "\<forall>t\<le>4 + k + 3. \<not> sigint w t"
    and "all_start w a b"
    and "silent w a b k"
    and "returncode w (4 + k) (polled a b k) = Some c"
    and "k div 2 < n"
  shows "requests (trace (snd (main n w))) = processes (snd (main n w))
         \<and> processes (snd (main n w)) = [watch_handle a, run_handle b]
         \<and> polled (watch_handle a) (run_handle b) k \<in> set (requests (trace (snd (main n w))))"
  using observed_exit_undisturbed [OF assms]
  by (simp add: requests_append requests_poll_trace requests_startup_trace polled_def)

theorem every_handle_is_sent_terminate_witness:
  "(\<forall>t. \<not> sigint run_exits_world t) \<and> all_start run_exits_world 101 102
   \<and> silent run_exits_world 101 102 3
   \<and> returncode run_exits_world (4 + 3) (polled 101 102 3) = Some 3
   \<and> 3 div 2 < (2::nat)
   \<and> requests (trace (snd (main 2 run_exits_world))) = processes (snd (main 2 run_exits_world))
   \<and> processes (snd (main 2 run_exits_world)) = [watch_handle 101, run_handle 102]
   \<and> polled (watch_handle 101) (run_handle 102) 3
        \<in> set (requests (trace (snd (main 2 run_exits_world))))"
proof -
  have h0: "\<forall>t. \<not> sigint run_exits_world t"
    by (simp add: run_exits_world_def calm_world_def)
  then have h1: "\<forall>t\<le>4 + 3 + 3. \<not> sigint run_exits_world t" by simp
  have h2: "all_start run_exits_world 101 102"
    using calm_start by (simp add: all_start_def run_exits_world_def)
  have h3: "silent run_exits_world 101 102 3"
    by (simp add: silent_def run_exits_world_def polled_def)
  have h4: "returncode run_exits_world (4 + 3) (polled 101 102 3) = Some 3"
    by (simp add: run_exits_world_def polled_def)
  have h5: "3 div 2 < (2::nat)" by simp
  from every_handle_is_sent_terminate [OF h1 h2 h3 h4 h5] h0 h2 h3 h4 h5
  show ?thesis by blast
qed

text \<open>
  Claim C10, as written, fails when an interrupt arrives between the two \<open>terminate()\<close>
  calls. The watcher has exited with code 1; the poll at time 4 sees it; the watcher is
  sent its request at time 5; the interrupt at time 6 is served before the runner's
  request, and the handler exits. The runner is in the process list and was sent nothing.
\<close>

theorem interrupt_between_requests_skips_handle:
  "all_start (interrupted_at 6 watch_exited_world) 101 102
   \<and> silent (interrupted_at 6 watch_exited_world) 101 102 0
   \<and> returncode (interrupted_at 6 watch_exited_world) (4 + 0) (polled 101 102 0) = Some 1
   \<and> 0 div 2 < (1::nat)
   \<and> fst (main 1 (interrupted_at 6 watch_exited_world)) = Some (SystemExit 0)
   \<and> requests (trace (snd (main 1 (interrupted_at 6 watch_exited_world))))
       = [watch_handle 101]
   \<and> run_handle 102 \<in> set (processes (snd (main 1 (interrupted_at 6 watch_exited_world))))
   \<and> run_handle 102
       \<notin> set (requests (trace (snd (main 1 (interrupted_at 6 watch_exited_world)))))"
proof -
  have "main 1 (interrupted_at 6 watch_exited_world) =
    (Some (SystemExit 0),
     \<lparr>clock = 6, sigint_handler = Signal_handler,
      processes = [watch_handle 101, run_handle 102],
      trace = startup_trace @ [Polled (watch_handle 101), Terminate_request (watch_handle 101),
        Exit 0]\<rparr>)"
    by (simp add: run_defs world_defs startup_trace_def watch_handle_def run_handle_def)
  then show ?thesis
    by (simp add: all_start_def silent_def polled_def world_defs startup_trace_def
        watch_handle_def run_handle_def)
qed

end
